theory Spec2Isabelle
  imports Complex_Main "HOL-Library.Word" "HOL-Library.Multiset" "HOL-Library.AList"
begin

section \<open>Cerial: schema-driven binary serialization\<close>

text \<open>
  A shallow embedding of \<^verbatim>\<open>src/serial.ts\<close>. A class decorated with \<^verbatim>\<open>@serialMember\<close> owns a
  static map \<^verbatim>\<open>__serial__\<close> from member names to definitions \<^verbatim>\<open>{ type, length? }\<close>;
  \<^verbatim>\<open>sizeof\<close>, \<^verbatim>\<open>serialize\<close> and \<^verbatim>\<open>Deserialize\<close> walk that map in insertion order.

  Exceptions are values of the type \<open>error\<close>, one constructor per \<^verbatim>\<open>throw\<close> of the source and
  per exception of the built-ins it calls (DataView, TypedArray.set, strict-mode
  assignment). Arrays live in a store indexed by address, so that two references to one
  array see each other's writes; instances are values.
\<close>

subsection \<open>Serial types and definitions\<close>

text \<open>
  \<^verbatim>\<open>SerialType = SerialPrimitive | typeof Serializable | string\<close>. A member's type is one of
  the ten primitive names, the name \<^verbatim>\<open>'string'\<close>, a class carrying a \<^verbatim>\<open>__serial__\<close> map
  (\<open>ClassT\<close>), an instance of such a class (\<open>InstanceT\<close>, the case \<^verbatim>\<open>isSerializeable\<close> tests
  through \<^verbatim>\<open>arg.constructor\<close>), or anything else (\<open>OtherT\<close>). The optional \<^verbatim>\<open>length\<close> is a
  natural number.
\<close>

datatype SerialPrimitive =
  Int8 | Uint8 | Int16 | Uint16 | Int32 | Uint32 | BigInt64 | BigUint64 | Float32 | Float64

datatype SerialType =
    PrimitiveT SerialPrimitive
  | StringT
  | ClassT "(string \<times> SerialDef) list"
  | InstanceT "(string \<times> SerialDef) list"
  | OtherT
and SerialDef = SerialDef (def_type: SerialType) (def_length: "nat option")

type_synonym SerialMap = "(string \<times> SerialDef) list"


text \<open>
  The type guards. \<^verbatim>\<open>isSerializeable(arg)\<close> tests \<^verbatim>\<open>arg.constructor\<close>: for an instance that is
  its class; for a class it is \<^verbatim>\<open>Function\<close>, which has no \<^verbatim>\<open>__serial__\<close>.
  \<^verbatim>\<open>isSerializeableStatic(arg)\<close> tests \<^verbatim>\<open>'__serial__' in arg\<close>: true of a class, false of an
  instance, whose prototype chain does not hold the static member.
\<close>

fun isSerialPrimitive :: "SerialType \<Rightarrow> bool" where
  "isSerialPrimitive (PrimitiveT p) = True"
| "isSerialPrimitive _ = False"

fun isSerialType :: "SerialType \<Rightarrow> bool"
  and isSerialDef :: "SerialDef \<Rightarrow> bool"
  and isSerialMap :: "SerialMap \<Rightarrow> bool"
  and isSerializeable :: "SerialType \<Rightarrow> bool"
  and isSerializeableStatic :: "SerialType \<Rightarrow> bool"
where
  "isSerialType t = (isSerialPrimitive t \<or> isSerializeable t \<or> t = StringT)"
| "isSerialDef (SerialDef t l) = isSerialType t"
| "isSerialMap [] = True"
| "isSerialMap ((k, v) # m) = (isSerialDef v \<and> isSerialMap m)"
| "isSerializeable (InstanceT m) = isSerializeableStatic (ClassT m)"
| "isSerializeable _ = False"
| "isSerializeableStatic (ClassT m) = isSerialMap m"
| "isSerializeableStatic _ = False"

subsection \<open>Errors\<close>

text \<open>
  \<^item> \<open>TypeError_NotValidType\<close>: \<^verbatim>\<open>sizeof\<close>, "... is not a valid type".
  \<^item> \<open>Error_ZeroLength\<close>: "0-length arrays are not yet supported".
  \<^item> \<open>TypeError_InvalidType\<close>: "Invalid type".
  \<^item> \<open>TypeError_NotString\<close>: "Value is not a string".
  \<^item> \<open>TypeError_NotArray\<close>: "Value is not an array".
  \<^item> \<open>TypeError_NotPrimitive\<close>: "Value is not a number" or "... a bigint".
  \<^item> \<open>TypeError_Conversion\<close>: the built-in conversions \<^verbatim>\<open>ToNumber\<close> of a bigint and
    \<^verbatim>\<open>ToBigInt\<close> of a number or of \<^verbatim>\<open>undefined\<close>.
  \<^item> \<open>TypeError_CannotSetProperty\<close>: strict-mode indexed assignment on a primitive value.
  \<^item> \<open>RangeError_OutOfBounds\<close>: a DataView access or a \<^verbatim>\<open>TypedArray.set\<close> beyond the buffer.
\<close>

datatype error =
    TypeError_NotValidType
  | Error_ZeroLength
  | TypeError_InvalidType
  | TypeError_NotString
  | TypeError_NotArray
  | TypeError_NotPrimitive
  | TypeError_Conversion
  | TypeError_CannotSetProperty
  | RangeError_OutOfBounds

subsection \<open>sizeof\<close>

text \<open>
  \<^verbatim>\<open>sizeof(val)\<close> iterates over the class map of a serializable value, and otherwise over the
  single entry \<^verbatim>\<open>[null, isSerialDef(val) ? val : { type: val }]\<close>. \<open>sizeof\<close> is the call on a
  type (a class, an instance, a type name), \<open>sizeof_def\<close> below the call on a definition;
  \<open>sizeof_loop\<close> is the \<^verbatim>\<open>for\<close> loop with the running \<^verbatim>\<open>size\<close>.
\<close>

fun primitive_size :: "SerialPrimitive \<Rightarrow> nat" where
  "primitive_size Int8 = 1"
| "primitive_size Uint8 = 1"
| "primitive_size Int16 = 2"
| "primitive_size Uint16 = 2"
| "primitive_size Int32 = 4"
| "primitive_size Uint32 = 4"
| "primitive_size Float32 = 4"
| "primitive_size BigInt64 = 8"
| "primitive_size BigUint64 = 8"
| "primitive_size Float64 = 8"

fun serial_of :: "SerialType \<Rightarrow> SerialMap" where
  "serial_of (ClassT m) = m"
| "serial_of (InstanceT m) = m"
| "serial_of _ = []"

function sizeof :: "SerialType \<Rightarrow> error + nat"
  and sizeof_loop :: "SerialDef list \<Rightarrow> nat \<Rightarrow> error + nat"
where
  "sizeof val =
     sizeof_loop
       (if isSerializeable val then map snd (serial_of val)
        else if isSerializeableStatic val then map snd (serial_of val)
        else [SerialDef val None]) 0"
| "sizeof_loop [] sz = Inr sz"
| "sizeof_loop (SerialDef ty len # rest) sz =
     (case (case ty of
              PrimitiveT p \<Rightarrow> Inr (primitive_size p)
            | _ \<Rightarrow> if isSerializeable ty \<or> isSerializeableStatic ty then sizeof ty
                   else if ty = StringT then Inr 1
                   else Inl TypeError_NotValidType) of
        Inl e \<Rightarrow> Inl e
      | Inr sz1 \<Rightarrow> sizeof_loop rest (sz + sz1 * (case len of None \<Rightarrow> 1 | Some n \<Rightarrow> n)))"
  by pat_completeness auto

text \<open>The recursion ends: a nested call is made on a serializable type only, whose map is smaller.\<close>

definition serializable :: "SerialType \<Rightarrow> bool" where
  "serializable t = (isSerializeable t \<or> isSerializeableStatic t)"

fun loop_weight :: "SerialDef list \<Rightarrow> nat" where
  "loop_weight [] = 0"
| "loop_weight (d # ds) =
     (if serializable (def_type d) then 2 * size (def_type d) + 3 else 1) + loop_weight ds"

lemma loop_weight_map: "loop_weight (map snd m) \<le> 2 * size_list (size_prod (\<lambda>x. 0) size) m"
proof (induction m)
  case Nil
  show ?case by simp
next
  case (Cons kd m)
  obtain k d where kd: "kd = (k, d)" by (cases kd)
  have "size (def_type d) < size d" by (cases d) simp
  with Cons kd show ?case by simp
qed

termination sizeof
proof (relation "measure (\<lambda>x. case x of Inl t \<Rightarrow> 2 * size t + 2 | Inr (ds, n) \<Rightarrow> loop_weight ds)",
    goal_cases)
  case 1
  show ?case by simp
next
  case (2 val)
  have "loop_weight (map snd m) < 2 * size (ClassT m) + 2"
       "loop_weight (map snd m) < 2 * size (InstanceT m) + 2" for m
    using loop_weight_map [of m] by simp_all
  then show ?case by (cases val) (simp_all add: serializable_def)
qed (auto simp: serializable_def)

declare sizeof.simps [simp del]

subsection \<open>Numbers, bytes and the DataView accessors\<close>

text \<open>
  A JavaScript number is a finite value, \<^verbatim>\<open>NaN\<close> or an infinity; finite values are rationals
  (every finite double is one; the sign of zero is not kept). \<open>PrimitiveValue\<close> is the
  source's \<^verbatim>\<open>number | bigint\<close>.

  \<^verbatim>\<open>view['set' + type](byteOffset, value)\<close> is called with two arguments, so the DataView
  uses its default byte order, most significant byte first: \<open>be_bytes w v\<close> are the \<open>w\<close>
  bytes of \<open>v mod 256 ^ w\<close> in that order and \<open>be_value\<close> reads them back. The integer
  setters truncate towards zero and wrap (\<^verbatim>\<open>ToInt16\<close> and its siblings); the float setters
  round to the nearest binary32 or binary64 value, ties to even (\<open>ieee_bits\<close>), and
  \<open>ieee_value\<close> is the value of a bit pattern.
\<close>

datatype number = Finite rat | NaN | PosInfinity | NegInfinity

datatype PrimitiveValue = Num number | Big int

type_synonym byte = "8 word"

definition trunc :: "rat \<Rightarrow> int" where
  "trunc r = (if r < 0 then \<lceil>r\<rceil> else \<lfloor>r\<rfloor>)"

fun ToIntegral :: "number \<Rightarrow> int" where
  "ToIntegral (Finite r) = trunc r"
| "ToIntegral _ = 0"

fun be_bytes :: "nat \<Rightarrow> int \<Rightarrow> byte list" where
  "be_bytes 0 v = []"
| "be_bytes (Suc k) v = word_of_int (v div 256 ^ k) # be_bytes k v"

definition be_value :: "byte list \<Rightarrow> int" where
  "be_value bs = foldl (\<lambda>acc b. acc * 256 + uint b) 0 bs"

definition as_signed :: "nat \<Rightarrow> int \<Rightarrow> int" where
  "as_signed w v = (if 2 ^ (8 * w - 1) \<le> v then v - 2 ^ (8 * w) else v)"

definition pow2 :: "int \<Rightarrow> rat" where
  "pow2 e = (if 0 \<le> e then 2 ^ nat e else 1 / 2 ^ nat (- e))"

function nbits :: "int \<Rightarrow> nat" where
  "nbits n = (if n \<le> 0 then 0 else Suc (nbits (n div 2)))"
  by pat_completeness auto
termination
  by (relation "measure nat") auto

declare nbits.simps [simp del]

definition floor_log2 :: "rat \<Rightarrow> int" where
  "floor_log2 r =
     (let p = fst (quotient_of r); q = snd (quotient_of r);
          d = int (nbits p) - int (nbits q)
      in if pow2 d \<le> r then d else d - 1)"

definition round_half_even :: "rat \<Rightarrow> int" where
  "round_half_even y =
     (let f = \<lfloor>y\<rfloor>; d = y - of_int f
      in if d < 1 / 2 then f else if 1 / 2 < d then f + 1 else if even f then f else f + 1)"

definition ieee_bits :: "nat \<Rightarrow> nat \<Rightarrow> number \<Rightarrow> int" where
  "ieee_bits eb mb x =
     (case x of
        NaN \<Rightarrow> (2 ^ eb - 1) * 2 ^ mb + 2 ^ (mb - 1)
      | PosInfinity \<Rightarrow> (2 ^ eb - 1) * 2 ^ mb
      | NegInfinity \<Rightarrow> 2 ^ (eb + mb) + (2 ^ eb - 1) * 2 ^ mb
      | Finite r \<Rightarrow>
          if r = 0 then 0
          else
            let a = \<bar>r\<bar>; bias = 2 ^ (eb - 1) - 1;
                e = max (floor_log2 a) (1 - bias);
                m = round_half_even (a / pow2 (e - int mb));
                bits = min ((e + bias - 1) * 2 ^ mb + m) ((2 ^ eb - 1) * 2 ^ mb)
            in (if r < 0 then 2 ^ (eb + mb) else 0) + bits)"

definition ieee_value :: "nat \<Rightarrow> nat \<Rightarrow> int \<Rightarrow> number" where
  "ieee_value eb mb bits =
     (let s = bits div 2 ^ (eb + mb) mod 2; ex = bits div 2 ^ mb mod 2 ^ eb;
          m = bits mod 2 ^ mb; bias = 2 ^ (eb - 1) - 1
      in if ex = 2 ^ eb - 1
         then (if m \<noteq> 0 then NaN else if s = 1 then NegInfinity else PosInfinity)
         else
           let mag = (if ex = 0 then of_int m * pow2 (1 - bias - int mb)
                      else of_int (2 ^ mb + m) * pow2 (ex - bias - int mb))
           in Finite (if s = 1 then - mag else mag))"

definition double :: "rat \<Rightarrow> number" where
  "double r = ieee_value 11 52 (ieee_bits 11 52 (Finite r))"

fun ToNumber :: "PrimitiveValue option \<Rightarrow> error + number" where
  "ToNumber None = Inr NaN"
| "ToNumber (Some (Num n)) = Inr n"
| "ToNumber (Some (Big i)) = Inl TypeError_Conversion"

fun ToBigInt :: "PrimitiveValue option \<Rightarrow> error + int" where
  "ToBigInt (Some (Big i)) = Inr i"
| "ToBigInt _ = Inl TypeError_Conversion"

fun isBig :: "SerialPrimitive \<Rightarrow> bool" where
  "isBig BigInt64 = True"
| "isBig BigUint64 = True"
| "isBig _ = False"

fun isSigned :: "SerialPrimitive \<Rightarrow> bool" where
  "isSigned Int8 = True"
| "isSigned Int16 = True"
| "isSigned Int32 = True"
| "isSigned BigInt64 = True"
| "isSigned _ = False"

definition to_bits :: "SerialPrimitive \<Rightarrow> PrimitiveValue option \<Rightarrow> error + int" where
  "to_bits p v =
     (if isBig p then ToBigInt v
      else case ToNumber v of
             Inl e \<Rightarrow> Inl e
           | Inr n \<Rightarrow> Inr (if p = Float32 then ieee_bits 8 23 n
                          else if p = Float64 then ieee_bits 11 52 n
                          else ToIntegral n))"

definition of_bits :: "SerialPrimitive \<Rightarrow> int \<Rightarrow> PrimitiveValue" where
  "of_bits p u =
     (if p = Float32 then Num (ieee_value 8 23 u)
      else if p = Float64 then Num (ieee_value 11 52 u)
      else let v = (if isSigned p then as_signed (primitive_size p) u else u)
           in if isBig p then Big v else Num (Finite (of_int v)))"

definition write_at :: "byte list \<Rightarrow> nat \<Rightarrow> byte list \<Rightarrow> byte list" where
  "write_at data offset bs = take offset data @ bs @ drop (offset + length bs) data"

definition view_set :: "SerialPrimitive \<Rightarrow> byte list \<Rightarrow> nat \<Rightarrow> PrimitiveValue option \<Rightarrow> error + byte list" where
  "view_set p data byteOffset v =
     (case to_bits p v of
        Inl e \<Rightarrow> Inl e
      | Inr u \<Rightarrow>
          if length data < byteOffset + primitive_size p then Inl RangeError_OutOfBounds
          else Inr (write_at data byteOffset (be_bytes (primitive_size p) u)))"

definition view_get :: "SerialPrimitive \<Rightarrow> byte list \<Rightarrow> nat \<Rightarrow> error + PrimitiveValue" where
  "view_get p buffer byteOffset =
     (if length buffer < byteOffset + primitive_size p then Inl RangeError_OutOfBounds
      else Inr (of_bits p (be_value (take (primitive_size p) (drop byteOffset buffer)))))"

text \<open>The value domain of an integer kind.\<close>

definition in_range :: "SerialPrimitive \<Rightarrow> int \<Rightarrow> bool" where
  "in_range p n =
     (if isSigned p then - (2 ^ (8 * primitive_size p - 1)) \<le> n \<and> n < 2 ^ (8 * primitive_size p - 1)
      else 0 \<le> n \<and> n < 2 ^ (8 * primitive_size p))"

subsection \<open>Values, instances and the array store\<close>

text \<open>
  A member holds a primitive value, a reference to an array in the store, or an instance
  (its class map and its own properties). Array elements are primitive values, and strings
  are strings of 8-bit characters (code units below 256). \<open>get ps key\<close> is \<^verbatim>\<open>this[key]\<close>,
  \<^verbatim>\<open>undefined\<close> for a missing property.
\<close>

datatype jsprim = Number number | BigInt int | String string | Boolean bool | Undefined

datatype jsval =
    Prim jsprim
  | Array nat
  | Object "(string \<times> SerialDef) list" "(string \<times> jsval) list"

type_synonym props = "(string \<times> jsval) list"

record heap =
  cells :: "nat \<Rightarrow> jsprim list"
  fresh :: nat

definition get :: "props \<Rightarrow> string \<Rightarrow> jsval" where
  "get ps key = (case map_of ps key of None \<Rightarrow> Prim Undefined | Some v \<Rightarrow> v)"

fun typeof :: "jsval \<Rightarrow> string" where
  "typeof (Prim (Number n)) = ''number''"
| "typeof (Prim (BigInt i)) = ''bigint''"
| "typeof (Prim (String s)) = ''string''"
| "typeof (Prim (Boolean b)) = ''boolean''"
| "typeof (Prim Undefined) = ''undefined''"
| "typeof (Array a) = ''object''"
| "typeof (Object c ps) = ''object''"

fun isArray :: "jsval \<Rightarrow> bool" where
  "isArray (Array a) = True"
| "isArray _ = False"

definition serialPrimitiveValue :: "SerialPrimitive \<Rightarrow> string" where
  "serialPrimitiveValue serialType =
     (if serialType = BigInt64 \<or> serialType = BigUint64 then ''bigint'' else ''number'')"

text \<open>
  \<open>coerce\<close> is the callback of \<^verbatim>\<open>value.flatMap\<close>, one equation per \<^verbatim>\<open>typeof el\<close>; its cases
  \<^verbatim>\<open>'object'\<close> and \<^verbatim>\<open>default\<close> are for elements that are no primitive values, which the store
  does not hold. \<open>elements\<close> is the array the callback runs over: the characters of a string
  (\<^verbatim>\<open>value = [...value]\<close>) or the array referred to.
\<close>

fun charCodeAt0 :: "string \<Rightarrow> number" where
  "charCodeAt0 [] = NaN"
| "charCodeAt0 (c # cs) = Finite (of_nat (of_char c))"

fun coerce :: "jsprim \<Rightarrow> PrimitiveValue" where
  "coerce (String el) = Num (charCodeAt0 el)"
| "coerce (BigInt el) = Big el"
| "coerce (Number el) = Num el"
| "coerce (Boolean el) = Num (Finite (if el then 1 else 0))"
| "coerce Undefined = Num (Finite 0)"

fun elements :: "heap \<Rightarrow> jsval \<Rightarrow> jsprim list" where
  "elements h (Prim (String s)) = map (\<lambda>c. String [c]) s"
| "elements h (Array a) = cells h a"
| "elements h _ = []"

fun to_primitive :: "jsval \<Rightarrow> PrimitiveValue option" where
  "to_primitive (Prim (Number n)) = Some (Num n)"
| "to_primitive (Prim (BigInt i)) = Some (Big i)"
| "to_primitive _ = None"

definition nth_opt :: "'a list \<Rightarrow> nat \<Rightarrow> 'a option" where
  "nth_opt xs i = (if i < length xs then Some (xs ! i) else None)"

fun sequence :: "(error + 'a) list \<Rightarrow> error + 'a list" where
  "sequence [] = Inr []"
| "sequence (x # xs) =
     (case x of
        Inl e \<Rightarrow> Inl e
      | Inr v \<Rightarrow> (case sequence xs of Inl e \<Rightarrow> Inl e | Inr vs \<Rightarrow> Inr (v # vs)))"

definition ToUint8 :: "number \<Rightarrow> byte" where
  "ToUint8 n = word_of_int (ToIntegral n)"

definition data_set_bytes :: "byte list \<Rightarrow> byte list \<Rightarrow> nat \<Rightarrow> error + byte list" where
  "data_set_bytes data src offset =
     (if length data < offset + length src then Inl RangeError_OutOfBounds
      else Inr (write_at data offset src))"

definition data_set :: "byte list \<Rightarrow> PrimitiveValue list \<Rightarrow> nat \<Rightarrow> error + byte list" where
  "data_set data src offset =
     (if length data < offset + length src then Inl RangeError_OutOfBounds
      else case sequence (map (\<lambda>v. ToNumber (Some v)) src) of
             Inl e \<Rightarrow> Inl e
           | Inr ns \<Rightarrow> Inr (write_at data offset (map ToUint8 ns)))"

fun for_each :: "nat list \<Rightarrow> (nat \<Rightarrow> 's \<Rightarrow> error \<times> 's + 's) \<Rightarrow> 's \<Rightarrow> error \<times> 's + 's" where
  "for_each [] body s = Inr s"
| "for_each (i # is) body s =
     (case body i s of Inl es \<Rightarrow> Inl es | Inr s' \<Rightarrow> for_each is body s')"

definition sizeof_def :: "SerialDef \<Rightarrow> error + nat" where
  "sizeof_def d = sizeof_loop [if isSerialDef d then d else SerialDef OtherT None] 0"

text \<open>
  \<^verbatim>\<open>if (length)\<close> holds of a non-zero number; \<^verbatim>\<open>i < length\<close> holds of no \<open>i\<close> when \<^verbatim>\<open>length\<close> is
  \<^verbatim>\<open>undefined\<close>.
\<close>

definition truthy_length :: "nat option \<Rightarrow> bool" where
  "truthy_length len = (case len of None \<Rightarrow> False | Some n \<Rightarrow> n \<noteq> 0)"

definition loop_bound :: "nat option \<Rightarrow> nat" where
  "loop_bound len = (case len of None \<Rightarrow> 0 | Some n \<Rightarrow> n)"

text \<open>
  The body of the inner loop of the Float32 and Float64 branch,
  \<^verbatim>\<open>view['set' + type](offset + i * (size / length), arrayData[i])\<close>.
\<close>

definition write_element ::
  "SerialPrimitive \<Rightarrow> PrimitiveValue list \<Rightarrow> nat \<Rightarrow> nat \<Rightarrow> nat \<Rightarrow> byte list \<Rightarrow>
   error \<times> byte list + byte list"
where
  "write_element p arrayData offset stride i data =
     (case view_set p data (offset + i * stride) (nth_opt arrayData i) of
        Inl e \<Rightarrow> Inl (e, data)
      | Inr data' \<Rightarrow> Inr data')"

text \<open>
  The body of the loop of \<^verbatim>\<open>serialize\<close> for one member: \<open>value0\<close> is \<^verbatim>\<open>this[key]\<close>, \<open>nested\<close>
  the result of \<^verbatim>\<open>type.prototype.serialize.call(value)\<close>. It returns the buffer and the
  advanced offset.
\<close>

definition serialize_member ::
  "heap \<Rightarrow> jsval \<Rightarrow> SerialDef \<Rightarrow> byte list \<Rightarrow> nat \<Rightarrow> (error + byte list) \<Rightarrow> error + byte list \<times> nat"
where
  "serialize_member h value0 d data offset nested =
     (case sizeof_def d of
        Inl e \<Rightarrow> Inl e
      | Inr sz \<Rightarrow>
          let ty = def_type d; len = def_length d in
          if len = Some 0 then Inl Error_ZeroLength
          else if \<not> isSerialType ty then Inl TypeError_InvalidType
          else if ty = StringT \<and> typeof value0 \<noteq> ''string'' then Inl TypeError_NotString
          else if truthy_length len \<and> \<not> isArray value0 \<and> ty \<noteq> StringT then Inl TypeError_NotArray
          else if \<not> truthy_length len \<and>
                  (case ty of PrimitiveT p \<Rightarrow> typeof value0 \<noteq> serialPrimitiveValue p | _ \<Rightarrow> False)
            then Inl TypeError_NotPrimitive
          else
            case (if truthy_length len
                  then let arrayData = take sz (map coerce (elements h value0)) in
                       case ty of
                         PrimitiveT p \<Rightarrow>
                           if p = Float32 \<or> p = Float64
                           then case for_each [0 ..< loop_bound len]
                                       (write_element p arrayData offset (sz div loop_bound len))
                                       data of
                                  Inl (e, dat) \<Rightarrow> Inl e
                                | Inr dat \<Rightarrow> Inr dat
                           else data_set data arrayData offset
                       | _ \<Rightarrow> data_set data arrayData offset
                  else case ty of
                         PrimitiveT p \<Rightarrow> view_set p data offset (to_primitive value0)
                       | _ \<Rightarrow> if isSerializeableStatic ty
                              then case nested of
                                     Inl e \<Rightarrow> Inl e
                                   | Inr serialized \<Rightarrow> data_set_bytes data serialized offset
                              else Inl TypeError_InvalidType) of
              Inl e \<Rightarrow> Inl e
            | Inr data' \<Rightarrow> Inr (data', offset + sz))"

text \<open>
  \<^verbatim>\<open>serialize\<close> with \<^verbatim>\<open>this\<close> an instance: \<^verbatim>\<open>sizeof(this)\<close>, a zero-filled buffer of that
  size, then the loop over \<^verbatim>\<open>this.constructor.__serial__\<close>. On any other \<^verbatim>\<open>this\<close>,
  \<^verbatim>\<open>sizeof(this)\<close> throws.
\<close>

lemma size_get_le: "size (get ps key) \<le> size_list (size_prod (\<lambda>x. 0) size) ps"
proof (induction ps)
  case Nil
  show ?case by (simp add: get_def)
next
  case (Cons kv ps)
  then show ?case by (cases kv) (auto simp: get_def split: option.splits if_splits)
qed

function serialize :: "heap \<Rightarrow> jsval \<Rightarrow> error + byte list"
  and serialize_loop :: "heap \<Rightarrow> props \<Rightarrow> SerialMap \<Rightarrow> byte list \<Rightarrow> nat \<Rightarrow> error + byte list"
where
  "serialize h (Object cls ps) =
     (case sizeof (InstanceT cls) of
        Inl e \<Rightarrow> Inl e
      | Inr n \<Rightarrow> serialize_loop h ps cls (replicate n 0) 0)"
| "serialize h (Prim v) = Inl TypeError_NotValidType"
| "serialize h (Array a) = Inl TypeError_NotValidType"
| "serialize_loop h ps [] data offset = Inr data"
| "serialize_loop h ps ((key, d) # rest) data offset =
     (case serialize_member h (get ps key) d data offset (serialize h (get ps key)) of
        Inl e \<Rightarrow> Inl e
      | Inr (data', offset') \<Rightarrow> serialize_loop h ps rest data' offset')"
  by pat_completeness auto
termination
proof (relation "measures
    [\<lambda>x. case x of
       Inl (h, this) \<Rightarrow> 2 * size this + 1
     | Inr (h, ps, m, data, offset) \<Rightarrow> 2 * size_list (size_prod (\<lambda>x. 0) size) ps + 2,
     \<lambda>x. case x of
       Inl (h, this) \<Rightarrow> 0
     | Inr (h, ps, m, data, offset) \<Rightarrow> length m]", goal_cases)
  case (3 h ps key d rest data offset)
  show ?case using size_get_le [of ps key] by simp
qed simp_all

subsection \<open>Deserialize\<close>

text \<open>
  \<^verbatim>\<open>Deserialize(data, instance)\<close> takes an ArrayBuffer or a view of one (its buffer, byte
  offset and byte length) and mutates \<^verbatim>\<open>instance\<close> member by member. The state is the pair of
  the instance's properties and the store; an exception carries the state reached when it
  was thrown, since the caller's instance and arrays keep the writes made before it.
  The default \<^verbatim>\<open>instance = new this()\<close> is the instance without own properties, and a nested
  \<^verbatim>\<open>type.Deserialize(...)\<close> starts from it.
\<close>

datatype BufferSource =
    ArrayBuffer "byte list"
  | ArrayBufferView "byte list" nat nat

fun buffer_of :: "BufferSource \<Rightarrow> byte list" where
  "buffer_of (ArrayBufferView buffer byteOffset byteLength) = buffer"
| "buffer_of (ArrayBuffer data) = data"

definition slice_list :: "'a list \<Rightarrow> nat \<Rightarrow> nat \<Rightarrow> 'a list" where
  "slice_list xs start end = take (end - start) (drop start xs)"

fun truthy :: "jsval \<Rightarrow> bool" where
  "truthy (Prim (Number n)) = (n \<noteq> NaN \<and> n \<noteq> Finite 0)"
| "truthy (Prim (BigInt i)) = (i \<noteq> 0)"
| "truthy (Prim (String s)) = (s \<noteq> [])"
| "truthy (Prim (Boolean b)) = b"
| "truthy (Prim Undefined) = False"
| "truthy (Array a) = True"
| "truthy (Object c ps) = True"



text \<open>
  The array at the address \<open>a\<close> is allocated and the property \<open>key\<close> is the only one that
  refers to it.
\<close>

definition unshared :: "nat \<Rightarrow> string \<Rightarrow> props \<times> heap \<Rightarrow> bool" where
  "unshared a key s =
     (get (fst s) key = Array a \<and> a < fresh (snd s) \<and> (\<forall>k. k \<noteq> key \<longrightarrow> get (fst s) k \<noteq> Array a))"

text \<open>The property name of an array index: its decimal digits.\<close>

definition digit :: "nat \<Rightarrow> char" where
  "digit k = char_of (of_char CHR ''0'' + k)"

function string_of_nat :: "nat \<Rightarrow> string" where
  "string_of_nat n =
     (case n div 10 of
        0 \<Rightarrow> [digit n]
      | Suc q \<Rightarrow> string_of_nat (Suc q) @ [digit (n mod 10)])"
  by pat_completeness auto
termination
  by (relation "measure id") auto

declare string_of_nat.simps [simp del]

definition list_set :: "jsprim list \<Rightarrow> nat \<Rightarrow> jsprim \<Rightarrow> jsprim list" where
  "list_set xs i v =
     (if i < length xs then xs[i := v]
      else xs @ replicate (i - length xs) Undefined @ [v])"

fun of_primitive :: "PrimitiveValue \<Rightarrow> jsprim" where
  "of_primitive (Num n) = Number n"
| "of_primitive (Big i) = BigInt i"

definition assign_index :: "props \<times> heap \<Rightarrow> string \<Rightarrow> nat \<Rightarrow> jsprim \<Rightarrow> error + props \<times> heap" where
  "assign_index s key i v =
     (case get (fst s) key of
        Array a \<Rightarrow>
          Inr (fst s, (snd s)\<lparr>cells := (cells (snd s))(a := list_set (cells (snd s) a) i v)\<rparr>)
      | Object c q \<Rightarrow>
          Inr (AList.update key (Object c (AList.update (string_of_nat i) (Prim v) q)) (fst s), snd s)
      | Prim x \<Rightarrow> Inl TypeError_CannotSetProperty)"

definition or_assign_empty :: "props \<times> heap \<Rightarrow> string \<Rightarrow> props \<times> heap" where
  "or_assign_empty s key =
     (if truthy (get (fst s) key) then s
      else (AList.update key (Array (fresh (snd s))) (fst s),
            (snd s)\<lparr>cells := (cells (snd s))(fresh (snd s) := []), fresh := Suc (fresh (snd s))\<rparr>))"

definition lastChar :: "byte list \<Rightarrow> nat" where
  "lastChar charArray =
     foldl (\<lambda>index (char, i). if char = 0 then index else i) 0
       (zip charArray [0 ..< length charArray]) + 1"

definition fromCharCode :: "byte \<Rightarrow> char" where
  "fromCharCode c = char_of (unat c)"

definition decode_string :: "byte list \<Rightarrow> string" where
  "decode_string charArray =
     map fromCharCode
       (slice_list charArray 0 (if lastChar charArray \<noteq> 0 then lastChar charArray else length charArray))"

text \<open>
  The body of the inner loop, \<^verbatim>\<open>instance[key][i] = view['get' + type](offset + i * (size / length))\<close>:
  the read comes first, then the assignment.
\<close>

definition read_element ::
  "SerialPrimitive \<Rightarrow> byte list \<Rightarrow> nat \<Rightarrow> nat \<Rightarrow> string \<Rightarrow> nat \<Rightarrow> props \<times> heap \<Rightarrow>
   error \<times> props \<times> heap + props \<times> heap"
where
  "read_element p buffer offset stride key i s =
     (case view_get p buffer (offset + i * stride) of
        Inl e \<Rightarrow> Inl (e, s)
      | Inr v \<Rightarrow>
          (case assign_index s key i (of_primitive v) of
             Inl e \<Rightarrow> Inl (e, s)
           | Inr s' \<Rightarrow> Inr s'))"

text \<open>
  The body of the loop of \<^verbatim>\<open>Deserialize\<close> for one member; \<open>nested\<close> is
  \<^verbatim>\<open>type.Deserialize(buffer.slice(offset, offset + size))\<close> as a function of \<^verbatim>\<open>size\<close>.
\<close>

definition Deserialize_member ::
  "props \<times> heap \<Rightarrow> string \<Rightarrow> SerialDef \<Rightarrow> byte list \<Rightarrow> nat \<Rightarrow>
   (nat \<Rightarrow> error \<times> heap + jsval \<times> heap) \<Rightarrow> error \<times> props \<times> heap + (props \<times> heap) \<times> nat"
where
  "Deserialize_member s key d buffer offset nested =
     (case sizeof_def d of
        Inl e \<Rightarrow> Inl (e, s)
      | Inr sz \<Rightarrow>
          let ty = def_type d; len = def_length d in
          if len = Some 0 then Inl (Error_ZeroLength, s)
          else if \<not> isSerialType ty then Inl (TypeError_InvalidType, s)
          else
            case (if truthy_length len
                  then let arraybuffer = slice_list buffer offset (offset + sz) in
                       case ty of
                         PrimitiveT p \<Rightarrow>
                           for_each [0 ..< loop_bound len]
                             (read_element p buffer offset (sz div loop_bound len) key)
                             (or_assign_empty s key)
                       | StringT \<Rightarrow>
                           Inr (AList.update key (Prim (String (decode_string arraybuffer))) (fst s), snd s)
                       | _ \<Rightarrow> Inr s
                  else case ty of
                         PrimitiveT p \<Rightarrow>
                           (case view_get p buffer offset of
                              Inl e \<Rightarrow> Inl (e, s)
                            | Inr v \<Rightarrow> Inr (AList.update key (Prim (of_primitive v)) (fst s), snd s))
                       | _ \<Rightarrow> if isSerializeableStatic ty
                              then case nested sz of
                                     Inl (e, h') \<Rightarrow> Inl (e, fst s, h')
                                   | Inr (v, h') \<Rightarrow> Inr (AList.update key v (fst s), h')
                              else Inl (TypeError_InvalidType, s)) of
              Inl es \<Rightarrow> Inl es
            | Inr s' \<Rightarrow> Inr (s', offset + sz))"

lemma size_serial_of_le:
  "size_list (size_prod (\<lambda>x. 0) size) (serial_of (def_type d)) < size d"
  by (cases d; cases "def_type d") auto

function Deserialize_loop ::
  "byte list \<Rightarrow> SerialMap \<Rightarrow> props \<times> heap \<Rightarrow> nat \<Rightarrow> error \<times> props \<times> heap + props \<times> heap"
where
  "Deserialize_loop buffer [] s offset = Inr s"
| "Deserialize_loop buffer ((key, d) # rest) s offset =
     (case Deserialize_member s key d buffer offset
             (\<lambda>sz. case Deserialize_loop (slice_list buffer offset (offset + sz))
                             (serial_of (def_type d)) ([], snd s) 0 of
                      Inl (e, ps', h') \<Rightarrow> Inl (e, h')
                    | Inr (ps', h') \<Rightarrow> Inr (Object (serial_of (def_type d)) ps', h')) of
        Inl es \<Rightarrow> Inl es
      | Inr (s', offset') \<Rightarrow> Deserialize_loop buffer rest s' offset')"
  by pat_completeness auto
termination
proof (relation "measure (\<lambda>(buffer, m, s, offset). size_list (size_prod (\<lambda>x. 0) size) m)", goal_cases)
  case (2 buffer key d rest s offset sz)
  show ?case using size_serial_of_le [of d] by simp
qed simp_all

definition Deserialize :: "SerialMap \<Rightarrow> BufferSource \<Rightarrow> props \<times> heap \<Rightarrow> error \<times> props \<times> heap + props \<times> heap" where
  "Deserialize this data instance = Deserialize_loop (buffer_of data) this instance 0"

subsection \<open>The layout as the specification words it\<close>

text \<open>
  The specification's table of byte widths and its formula for the size: the size of a
  schema is the sum over its fields of \<open>fieldSize(field) = elementWidth(kind) * (repeat ?? 1)\<close>,
  where the element width of a nested kind is the size of the nested schema.
\<close>

fun byteWidth :: "SerialPrimitive \<Rightarrow> nat" where
  "byteWidth Int8 = 1"
| "byteWidth Uint8 = 1"
| "byteWidth Int16 = 2"
| "byteWidth Uint16 = 2"
| "byteWidth Int32 = 4"
| "byteWidth Uint32 = 4"
| "byteWidth BigInt64 = 8"
| "byteWidth BigUint64 = 8"
| "byteWidth Float32 = 4"
| "byteWidth Float64 = 8"

fun elementWidth :: "SerialType \<Rightarrow> nat"
  and fieldSize :: "SerialDef \<Rightarrow> nat"
  and spec_size :: "SerialMap \<Rightarrow> nat"
where
  "elementWidth (PrimitiveT p) = byteWidth p"
| "elementWidth StringT = 1"
| "elementWidth (ClassT m) = spec_size m"
| "elementWidth (InstanceT m) = spec_size m"
| "elementWidth OtherT = 0"
| "fieldSize (SerialDef ty len) = elementWidth ty * (case len of None \<Rightarrow> 1 | Some n \<Rightarrow> n)"
| "spec_size [] = 0"
| "spec_size ((name, d) # m) = fieldSize d + spec_size m"

subsection \<open>Concrete schemas and instances\<close>

text \<open>
  The class of \<^verbatim>\<open>tests/serial.test.ts\<close>, which is the specification's concrete scenario: an
  Int16, two Float32 and a string of five characters, with the instance
  \<^verbatim>\<open>{ prop1: 42, prop2: [3.14, 2.71], prop3: 'test' }\<close> and the bytes the test expects.
  \<open>heap_of\<close> is the store that holds the given arrays at the addresses 0, 1, ...
\<close>

definition heap_of :: "jsprim list list \<Rightarrow> heap" where
  "heap_of arrays =
     \<lparr>cells = (\<lambda>a. if a < length arrays then arrays ! a else []), fresh = length arrays\<rparr>"

definition Test :: SerialMap where
  "Test = [(''prop1'', SerialDef (PrimitiveT Int16) None),
           (''prop2'', SerialDef (PrimitiveT Float32) (Some 2)),
           (''prop3'', SerialDef StringT (Some 5))]"

definition test_instance :: jsval where
  "test_instance = Object Test
     [(''prop1'', Prim (Number (Finite 42))),
      (''prop2'', Array 0),
      (''prop3'', Prim (String ''test''))]"

definition test_heap :: heap where
  "test_heap = heap_of [[Number (double (157 / 50)), Number (double (271 / 100))]]"

definition expectedSerializedData :: "byte list" where
  "expectedSerializedData =
     [0, 42, 0x40, 0x48, 0xF5, 0xC3, 0x40, 0x2D, 0x70, 0xA4, 0x74, 0x65, 0x73, 0x74, 0]"

text \<open>A class with one member \<open>xs\<close>, an array of \<open>n\<close> elements of a primitive type.\<close>

definition array_class :: "SerialPrimitive \<Rightarrow> nat \<Rightarrow> SerialMap" where
  "array_class p n = [(''xs'', SerialDef (PrimitiveT p) (Some n))]"

text \<open>A class with one member \<open>s\<close>, a string of \<open>n\<close> characters.\<close>

definition string_class :: "nat \<Rightarrow> SerialMap" where
  "string_class n = [(''s'', SerialDef StringT (Some n))]"

text \<open>
  A class whose second member has the length 0, and a class that nests two instances of
  \<open>Test\<close> in an array member.
\<close>

definition zero_length_class :: SerialMap where
  "zero_length_class = [(''a'', SerialDef (PrimitiveT Int8) None),
                 (''b'', SerialDef (PrimitiveT Int8) (Some 0))]"




section \<open>Auxiliary facts\<close>

subsection \<open>sizeof on valid schemas\<close>

lemma primitive_size_byteWidth: "primitive_size p = byteWidth p"
  by (cases p) simp_all

lemma isSerialMap_iff: "isSerialMap m \<longleftrightarrow> (\<forall>d \<in> set (map snd m). isSerialDef d)"
  by (induction m) auto

lemma spec_size_sum: "spec_size m = (\<Sum>d\<leftarrow>map snd m. fieldSize d)"
  by (induction m) auto

lemma sizeof_valid:
  "(serializable val \<longrightarrow> sizeof val = Inr (spec_size (serial_of val)))"
  "((\<forall>d \<in> set ds. isSerialDef d) \<longrightarrow> sizeof_loop ds acc = Inr (acc + (\<Sum>d\<leftarrow>ds. fieldSize d)))"
proof (induction val and ds acc rule: sizeof_sizeof_loop.induct)
  case (1 val)
  show ?case
  proof
    assume v: "serializable val"
    then have "\<forall>d \<in> set (map snd (serial_of val)). isSerialDef d"
      by (cases val) (auto simp: serializable_def isSerialMap_iff)
    moreover have "(if isSerializeable val then map snd (serial_of val)
        else if isSerializeableStatic val then map snd (serial_of val)
        else [SerialDef val None]) = map snd (serial_of val)"
      using v by (auto simp: serializable_def)
    ultimately show "sizeof val = Inr (spec_size (serial_of val))"
      using 1 by (simp add: spec_size_sum sizeof.simps [of val])
  qed
next
  case (2 sz)
  show ?case by simp
next
  case (3 ty len rest sz)
  show ?case
  proof
    assume a: "\<forall>d \<in> set (SerialDef ty len # rest). isSerialDef d"
    then have ty: "isSerialType ty" and rest: "\<forall>d \<in> set rest. isSerialDef d" by auto
    show "sizeof_loop (SerialDef ty len # rest) sz = Inr (sz + (\<Sum>d\<leftarrow>SerialDef ty len # rest. fieldSize d))"
    proof (cases ty)
      case (PrimitiveT p)
      with 3 rest show ?thesis by (simp add: primitive_size_byteWidth)
    next
      case StringT
      with 3 rest show ?thesis by simp
    next
      case (ClassT m)
      with ty show ?thesis by simp
    next
      case (InstanceT m)
      with ty have s: "serializable ty" by (simp add: serializable_def)
      with 3 InstanceT have "sizeof ty = Inr (spec_size m)" by (simp add: serializable_def)
      with 3 rest InstanceT s show ?thesis by (simp add: serializable_def)
    next
      case OtherT
      with ty show ?thesis by simp
    qed
  qed
qed

lemma sizeof_ClassT: "isSerialMap m \<Longrightarrow> sizeof (ClassT m) = Inr (spec_size m)"
  using sizeof_valid(1) [of "ClassT m"] by (simp add: serializable_def)

lemma sizeof_InstanceT: "isSerialMap m \<Longrightarrow> sizeof (InstanceT m) = Inr (spec_size m)"
  using sizeof_valid(1) [of "InstanceT m"] by (simp add: serializable_def)


lemma sizeof_nested_class:
  "isSerialMap Test
   \<and> sizeof (ClassT [(''inner'', SerialDef (ClassT Test) None)]) = Inl TypeError_NotValidType
   \<and> sizeof (ClassT [(''inner'', SerialDef (InstanceT Test) None)]) = Inr 15"
  by code_simp



lemma sizeof_def_valid: "isSerialType (def_type d) \<Longrightarrow> sizeof_def d = Inr (fieldSize d)"
  using sizeof_valid(2) [of "[d]" 0] by (cases d) (simp add: sizeof_def_def)

subsection \<open>The inner loop of Deserialize\<close>

lemma sizeof_def_PrimitiveT [simp]:
  "sizeof_def (SerialDef (PrimitiveT p) len) = Inr (primitive_size p * (case len of None \<Rightarrow> 1 | Some n \<Rightarrow> n))"
  by (simp add: sizeof_def_def)

lemma primitive_size_pos [simp]: "0 < primitive_size p"
  by (cases p) simp_all

lemma take_Suc_list_set: "i \<le> length xs \<Longrightarrow> take (Suc i) (list_set xs i v) = take i xs @ [v]"
  by (auto simp: list_set_def take_Suc_conv_app_nth)

lemma drop_list_set: "i < n \<Longrightarrow> drop n (list_set xs i v) = drop n xs"
  by (auto simp: list_set_def)

lemma length_list_set: "i \<le> length xs \<Longrightarrow> Suc i \<le> length (list_set xs i v)"
  by (auto simp: list_set_def)

lemma for_each_read_into_array:
  assumes "for_each [i ..< n] (read_element p buffer offset (primitive_size p) key) (ps, h0) = Inr s'"
    and "get ps key = Array a" and "i \<le> length (cells h0 a)" and "i \<le> n"
  shows "\<exists>vs. map (\<lambda>j. view_get p buffer (offset + j * primitive_size p)) [i ..< n] = map Inr vs
           \<and> s' = (ps, h0\<lparr>cells := (cells h0)(a := take i (cells h0 a) @ map of_primitive vs @ drop n (cells h0 a))\<rparr>)"
  using assms
proof (induction "n - i" arbitrary: i h0)
  case 0
  then have "i = n" and "s' = (ps, h0)" by simp_all
  moreover have "h0\<lparr>cells := (cells h0)(a := take n (cells h0 a) @ drop n (cells h0 a))\<rparr> = h0"
    by simp
  ultimately show ?case by (intro exI [of _ "[]"]) simp
next
  case (Suc k)
  then have lt: "i < n" by simp
  then have upt: "[i ..< n] = i # [Suc i ..< n]" by (rule upt_conv_Cons)
  from Suc.prems(1) obtain v where v: "view_get p buffer (offset + i * primitive_size p) = Inr v"
    unfolding upt by (auto simp: read_element_def split: sum.splits)
  define h1 where "h1 = h0\<lparr>cells := (cells h0)(a := list_set (cells h0 a) i (of_primitive v))\<rparr>"
  have step: "read_element p buffer offset (primitive_size p) key i (ps, h0) = Inr (ps, h1)"
    using v Suc.prems(2) by (simp add: read_element_def assign_index_def h1_def)
  have rest: "for_each [Suc i ..< n] (read_element p buffer offset (primitive_size p) key) (ps, h1) = Inr s'"
    using Suc.prems(1) step unfolding upt by simp
  have len: "Suc i \<le> length (cells h1 a)"
    using Suc.prems(3) by (simp add: h1_def length_list_set)
  have "k = n - Suc i" using Suc.hyps(2) by simp
  from Suc.hyps(1) [OF this rest Suc.prems(2) len] lt
  obtain vs where vs: "map (\<lambda>j. view_get p buffer (offset + j * primitive_size p)) [Suc i ..< n] = map Inr vs"
    and s': "s' = (ps, h1\<lparr>cells := (cells h1)(a := take (Suc i) (cells h1 a) @ map of_primitive vs @ drop n (cells h1 a))\<rparr>)"
    by auto
  have "map (\<lambda>j. view_get p buffer (offset + j * primitive_size p)) [i ..< n] = map Inr (v # vs)"
    unfolding upt using v vs by simp
  moreover have "s' = (ps, h0\<lparr>cells := (cells h0)(a := take i (cells h0 a) @ map of_primitive (v # vs) @ drop n (cells h0 a))\<rparr>)"
    unfolding s' using Suc.prems(3) lt by (simp add: h1_def take_Suc_list_set drop_list_set)
  ultimately show ?case by blast
qed

lemma Deserialize_member_PrimitiveT_array:
  "Deserialize_member s key (SerialDef (PrimitiveT p) (Some n)) buffer offset nested =
     (if n = 0 then Inl (Error_ZeroLength, s)
      else case for_each [0 ..< n] (read_element p buffer offset (primitive_size p) key)
                  (or_assign_empty s key) of
             Inl es \<Rightarrow> Inl es
           | Inr s' \<Rightarrow> Inr (s', offset + primitive_size p * n))"
  by (simp add: Deserialize_member_def Let_def truthy_length_def loop_bound_def)


lemma get_update [simp]: "get (AList.update k v ps) k' = (if k' = k then v else get ps k')"
  by (simp add: get_def update_conv')






lemma Deserialize_member_PrimitiveT_scalar:
  "Deserialize_member s key (SerialDef (PrimitiveT p) None) buffer offset nested =
     (case view_get p buffer offset of
        Inl e \<Rightarrow> Inl (e, s)
      | Inr v \<Rightarrow> Inr ((AList.update key (Prim (of_primitive v)) (fst s), snd s), offset + primitive_size p))"
  by (simp add: Deserialize_member_def Let_def truthy_length_def split: sum.splits)


subsection \<open>The loops over the members\<close>

lemma Deserialize_member_zero:
  assumes "def_length d = Some 0"
  shows "\<exists>e. Deserialize_member s key d buffer offset nested = Inl (e, s)"
    and "isSerialType (def_type d) \<Longrightarrow>
         Deserialize_member s key d buffer offset nested = Inl (Error_ZeroLength, s)"
  using assms by (auto simp: Deserialize_member_def sizeof_def_valid split: sum.splits)

lemma serialize_member_zero:
  assumes "def_length d = Some 0"
  shows "\<exists>e. serialize_member h v d data offset nested = Inl e"
    and "isSerialType (def_type d) \<Longrightarrow>
         serialize_member h v d data offset nested = Inl Error_ZeroLength"
  using assms by (auto simp: serialize_member_def sizeof_def_valid split: sum.splits)

lemma Deserialize_loop_zero:
  assumes "(key, d) \<in> set m" and "def_length d = Some 0"
  shows "\<exists>e s'. Deserialize_loop buffer m s offset = Inl (e, s')"
  using assms(1)
proof (induction m arbitrary: s offset)
  case Nil
  then show ?case by simp
next
  case (Cons kd m)
  obtain k' d' where kd: "kd = (k', d')" by (cases kd)
  let ?r = "Deserialize_member s k' d' buffer offset
      (\<lambda>sz. case Deserialize_loop (slice_list buffer offset (offset + sz)) (serial_of (def_type d')) ([], snd s) 0 of
              Inl (e, ps', h') \<Rightarrow> Inl (e, h')
            | Inr (ps', h') \<Rightarrow> Inr (Object (serial_of (def_type d')) ps', h'))"
  show ?case
  proof (cases ?r)
    case (Inl es)
    then show ?thesis unfolding kd by (cases es) simp
  next
    case (Inr r)
    obtain s1 off1 where r: "r = (s1, off1)" by (cases r)
    have "d' \<noteq> d \<or> k' \<noteq> key"
    proof (rule ccontr)
      assume "\<not> (d' \<noteq> d \<or> k' \<noteq> key)"
      then have e: "d' = d" "k' = key" by auto
      obtain e where "?r = Inl (e, s)"
        using Deserialize_member_zero(1) [OF assms(2)] unfolding e by blast
      with Inr show False by simp
    qed
    then have "(key, d) \<in> set m" using Cons.prems kd by auto
    from Cons.IH [OF this, of s1 off1] show ?thesis
      unfolding kd using Inr r by simp
  qed
qed

lemma serialize_loop_zero:
  assumes "(key, d) \<in> set m" and "def_length d = Some 0"
  shows "\<exists>e. serialize_loop h ps m data offset = Inl e"
  using assms(1)
proof (induction m arbitrary: data offset)
  case Nil
  then show ?case by simp
next
  case (Cons kd m)
  obtain k' d' where kd: "kd = (k', d')" by (cases kd)
  let ?r = "serialize_member h (get ps k') d' data offset (serialize h (get ps k'))"
  show ?case
  proof (cases ?r)
    case (Inl e)
    then show ?thesis unfolding kd by simp
  next
    case (Inr r)
    obtain data1 off1 where r: "r = (data1, off1)" by (cases r)
    have "d' \<noteq> d"
    proof
      assume e: "d' = d"
      obtain e where "?r = Inl e"
        using serialize_member_zero(1) [OF assms(2)] unfolding e by blast
      with Inr show False by simp
    qed
    then have "(key, d) \<in> set m" using Cons.prems kd by auto
    from Cons.IH [OF this, of data1 off1] show ?thesis
      unfolding kd using Inr r by simp
  qed
qed

lemma Deserialize_loop_append:
  assumes "Deserialize_loop buffer pre s offset = Inr s1"
  shows "\<exists>off1. \<forall>rest. Deserialize_loop buffer (pre @ rest) s offset = Deserialize_loop buffer rest s1 off1"
  using assms
proof (induction pre arbitrary: s offset)
  case Nil
  then show ?case by auto
next
  case (Cons kd pre)
  obtain k' d' where kd: "kd = (k', d')" by (cases kd)
  from Cons.prems obtain s2 off2 where
    m: "Deserialize_member s k' d' buffer offset
      (\<lambda>sz. case Deserialize_loop (slice_list buffer offset (offset + sz)) (serial_of (def_type d')) ([], snd s) 0 of
              Inl (e, ps', h') \<Rightarrow> Inl (e, h')
            | Inr (ps', h') \<Rightarrow> Inr (Object (serial_of (def_type d')) ps', h')) = Inr (s2, off2)"
    and l: "Deserialize_loop buffer pre s2 off2 = Inr s1"
    unfolding kd by (auto split: sum.splits)
  from Cons.IH [OF l] obtain off1 where
    "\<forall>rest. Deserialize_loop buffer (pre @ rest) s2 off2 = Deserialize_loop buffer rest s1 off1" ..
  then show ?case unfolding kd using m by auto
qed

lemma serialize_loop_append:
  assumes "serialize_loop h ps pre data offset = Inr data1"
  shows "\<exists>off1. \<forall>rest. serialize_loop h ps (pre @ rest) data offset = serialize_loop h ps rest data1 off1"
  using assms
proof (induction pre arbitrary: data offset)
  case Nil
  then show ?case by auto
next
  case (Cons kd pre)
  obtain k' d' where kd: "kd = (k', d')" by (cases kd)
  from Cons.prems obtain data2 off2 where
    m: "serialize_member h (get ps k') d' data offset (serialize h (get ps k')) = Inr (data2, off2)"
    and l: "serialize_loop h ps pre data2 off2 = Inr data1"
    unfolding kd by (auto split: sum.splits)
  from Cons.IH [OF l] obtain off1 where
    "\<forall>rest. serialize_loop h ps (pre @ rest) data2 off2 = serialize_loop h ps rest data1 off1" ..
  then show ?case unfolding kd using m by auto
qed









subsection \<open>An array that one member refers to\<close>

text \<open>
  The members with other names leave the array alone, so that a whole call of
  \<^verbatim>\<open>Deserialize\<close> changes it only through the member that refers to it: the elements below
  the member's length become the values read at the member's offset, the others stay.
\<close>

lemma assign_index_unshared:
  assumes "assign_index s k i v = Inr s'" and "k \<noteq> key" and "unshared a key s"
  shows "unshared a key s' \<and> cells (snd s') a = cells (snd s) a"
proof (cases "get (fst s) k")
  case (Prim x)
  with assms(1) show ?thesis by (simp add: assign_index_def)
next
  case (Array b)
  with assms(2,3) have "b \<noteq> a" by (auto simp: unshared_def)
  with assms Array show ?thesis by (auto simp: assign_index_def unshared_def)
next
  case (Object c q)
  with assms show ?thesis by (auto simp: assign_index_def unshared_def split: if_splits)
qed

lemma for_each_read_unshared:
  assumes "for_each ns (read_element p buffer offset stride k) s = Inr s'"
    and "k \<noteq> key" and "unshared a key s"
  shows "unshared a key s' \<and> cells (snd s') a = cells (snd s) a"
  using assms(1,3)
proof (induction ns arbitrary: s)
  case Nil
  then show ?case by simp
next
  case (Cons i ns)
  from Cons.prems(1) obtain s1 where
    1: "read_element p buffer offset stride k i s = Inr s1"
    and 2: "for_each ns (read_element p buffer offset stride k) s1 = Inr s'"
    by (auto split: sum.splits)
  from 1 obtain v where "assign_index s k i v = Inr s1"
    by (auto simp: read_element_def split: sum.splits)
  from assign_index_unshared [OF this assms(2) Cons.prems(2)]
  have "unshared a key s1" and "cells (snd s1) a = cells (snd s) a" by simp_all
  with Cons.IH [OF 2] show ?case by simp
qed

lemma or_assign_empty_unshared:
  assumes "k \<noteq> key" and "unshared a key s"
  shows "unshared a key (or_assign_empty s k) \<and> cells (snd (or_assign_empty s k)) a = cells (snd s) a"
  using assms by (auto simp: or_assign_empty_def unshared_def)

lemma update_unshared:
  assumes "k \<noteq> key" and "unshared a key s" and "v \<noteq> Array a"
  shows "unshared a key (AList.update k v (fst s), snd s)"
  using assms by (auto simp: unshared_def)

lemma Deserialize_member_unshared:
  assumes "Deserialize_member s k d buffer offset nested = Inr (s', offset')"
    and "k \<noteq> key" and "unshared a key s"
  shows "unshared a key s' \<and> cells (snd s') a = cells (snd s) a"
proof -
  from assms(1) obtain sz where sz: "sizeof_def d = Inr sz"
    and ty: "isSerialType (def_type d)" and nz: "def_length d \<noteq> Some 0"
    by (auto simp: Deserialize_member_def Let_def split: sum.splits if_splits)
  show ?thesis
  proof (cases "def_type d")
    case (PrimitiveT p)
    show ?thesis
    proof (cases "truthy_length (def_length d)")
      case True
      with assms(1) sz ty nz PrimitiveT have
        "for_each [0 ..< loop_bound (def_length d)]
           (read_element p buffer offset (sz div loop_bound (def_length d)) k) (or_assign_empty s k) = Inr s'"
        by (auto simp: Deserialize_member_def Let_def split: sum.splits)
      from for_each_read_unshared [OF this assms(2)] or_assign_empty_unshared [OF assms(2,3)]
      show ?thesis by simp
    next
      case False
      with assms(1) sz ty nz PrimitiveT obtain v where
        "s' = (AList.update k (Prim v) (fst s), snd s)"
        by (auto simp: Deserialize_member_def Let_def split: sum.splits)
      with update_unshared [OF assms(2,3), of "Prim v"] show ?thesis by simp
    qed
  next
    case StringT
    with assms(1) sz ty nz obtain v where "s' = (AList.update k (Prim v) (fst s), snd s)"
      by (auto simp: Deserialize_member_def Let_def split: sum.splits if_splits)
    with update_unshared [OF assms(2,3), of "Prim v"] show ?thesis by simp
  next
    case (ClassT m)
    with ty show ?thesis by simp
  next
    case (InstanceT m)
    with assms(1) sz ty nz have "s' = s"
      by (auto simp: Deserialize_member_def Let_def split: sum.splits if_splits)
    with assms(3) show ?thesis by simp
  next
    case OtherT
    with ty show ?thesis by simp
  qed
qed

lemma Deserialize_loop_unshared:
  assumes "Deserialize_loop buffer m s offset = Inr s'"
    and "key \<notin> fst ` set m" and "unshared a key s"
  shows "unshared a key s' \<and> cells (snd s') a = cells (snd s) a"
  using assms
proof (induction m arbitrary: s offset)
  case Nil
  then show ?case by simp
next
  case (Cons kd m)
  obtain k d where kd: "kd = (k, d)" by (cases kd)
  from Cons.prems(1) obtain s1 off1 where
    1: "Deserialize_member s k d buffer offset
      (\<lambda>sz. case Deserialize_loop (slice_list buffer offset (offset + sz)) (serial_of (def_type d)) ([], snd s) 0 of
              Inl (e, ps', h') \<Rightarrow> Inl (e, h')
            | Inr (ps', h') \<Rightarrow> Inr (Object (serial_of (def_type d)) ps', h')) = Inr (s1, off1)"
    and 2: "Deserialize_loop buffer m s1 off1 = Inr s'"
    unfolding kd by (auto split: sum.splits)
  have k: "k \<noteq> key" and rest: "key \<notin> fst ` set m" using Cons.prems(2) kd by auto
  from Deserialize_member_unshared [OF 1 k Cons.prems(3)]
  have "unshared a key s1" and "cells (snd s1) a = cells (snd s) a" by simp_all
  with Cons.IH [OF 2 rest] show ?case by simp
qed

lemma Deserialize_member_offset:
  assumes "Deserialize_member s k d buffer offset nested = Inr (s', offset')"
  shows "offset' = offset + fieldSize d"
proof -
  from assms obtain sz where sz: "sizeof_def d = Inr sz"
    and ty: "isSerialType (def_type d)" and o: "offset' = offset + sz"
    by (auto simp: Deserialize_member_def Let_def split: sum.splits if_splits)
  with sizeof_def_valid [OF ty] show ?thesis by simp
qed

lemma Deserialize_loop_split:
  assumes "Deserialize_loop buffer (pre @ rest) s offset = Inr s'"
  shows "\<exists>s1. Deserialize_loop buffer pre s offset = Inr s1
           \<and> Deserialize_loop buffer rest s1 (offset + spec_size pre) = Inr s'"
  using assms
proof (induction pre arbitrary: s offset)
  case Nil
  then show ?case by simp
next
  case (Cons kd pre)
  obtain k d where kd: "kd = (k, d)" by (cases kd)
  let ?nested = "\<lambda>sz. case Deserialize_loop (slice_list buffer offset (offset + sz)) (serial_of (def_type d)) ([], snd s) 0 of
              Inl (e, ps', h') \<Rightarrow> Inl (e, h')
            | Inr (ps', h') \<Rightarrow> Inr (Object (serial_of (def_type d)) ps', h')"
  from Cons.prems obtain s2 off2 where
    1: "Deserialize_member s k d buffer offset ?nested = Inr (s2, off2)"
    and 2: "Deserialize_loop buffer (pre @ rest) s2 off2 = Inr s'"
    unfolding kd by (auto split: sum.splits)
  have off2: "off2 = offset + fieldSize d" using 1 by (rule Deserialize_member_offset)
  from Cons.IH [OF 2] obtain s1 where
    "Deserialize_loop buffer pre s2 off2 = Inr s1"
    and "Deserialize_loop buffer rest s1 (off2 + spec_size pre) = Inr s'" by blast
  then show ?case unfolding kd using 1 off2 by (simp add: add.assoc)
qed

lemma Deserialize_call_reuses_array:
  assumes "Deserialize (pre @ (key, SerialDef (PrimitiveT p) (Some n)) # post) data (ps, h) = Inr (ps', h')"
    and "distinct (map fst (pre @ (key, SerialDef (PrimitiveT p) (Some n)) # post))"
    and "get ps key = Array a" and "a < fresh h" and "\<forall>k. k \<noteq> key \<longrightarrow> get ps k \<noteq> Array a"
  shows "\<exists>vs. map (\<lambda>i. view_get p (buffer_of data) (spec_size pre + i * primitive_size p)) [0 ..< n]
              = map Inr vs
           \<and> get ps' key = Array a
           \<and> cells h' a = map of_primitive vs @ drop n (cells h a)"
proof -
  let ?d = "SerialDef (PrimitiveT p) (Some n)"
  let ?buffer = "buffer_of data"
  have u0: "unshared a key (ps, h)" using assms(3-5) by (simp add: unshared_def)
  have k1: "key \<notin> fst ` set pre" and k2: "key \<notin> fst ` set post" using assms(2) by auto
  from assms(1) Deserialize_loop_split [of ?buffer pre "(key, ?d) # post" "(ps, h)" 0 "(ps', h')"]
  obtain s1 where pre: "Deserialize_loop ?buffer pre (ps, h) 0 = Inr s1"
    and rest: "Deserialize_loop ?buffer ((key, ?d) # post) s1 (spec_size pre) = Inr (ps', h')"
    by (auto simp: Deserialize_def)
  from Deserialize_loop_unshared [OF pre k1 u0]
  have u1: "unshared a key s1" and c1: "cells (snd s1) a = cells h a" by simp_all
  obtain ps1 h1 where s1: "s1 = (ps1, h1)" by (cases s1)
  have g1: "get ps1 key = Array a" using u1 s1 by (simp add: unshared_def)
  have keep: "or_assign_empty (ps1, h1) key = (ps1, h1)"
    using g1 by (simp add: or_assign_empty_def)
  from rest obtain s2 off2 where
    m: "for_each [0 ..< n] (read_element p ?buffer (spec_size pre) (primitive_size p) key) (ps1, h1) = Inr s2"
    and post: "Deserialize_loop ?buffer post s2 off2 = Inr (ps', h')"
    unfolding s1 using keep
    by (auto simp: Deserialize_member_PrimitiveT_array split: sum.splits if_splits)
  from for_each_read_into_array [OF m g1] obtain vs where
    vs: "map (\<lambda>j. view_get p ?buffer (spec_size pre + j * primitive_size p)) [0 ..< n] = map Inr vs"
    and s2: "s2 = (ps1, h1\<lparr>cells := (cells h1)(a := map of_primitive vs @ drop n (cells h1 a))\<rparr>)"
    by auto
  have u2: "unshared a key s2" using u1 unfolding s1 s2 by (simp add: unshared_def)
  from Deserialize_loop_unshared [OF post k2 u2]
  have "unshared a key (ps', h')" and "cells h' a = cells (snd s2) a" by simp_all
  then have "get ps' key = Array a" and "cells h' a = map of_primitive vs @ drop n (cells h a)"
    using c1 unfolding s1 s2 by (simp_all add: unshared_def)
  with vs show ?thesis by blast
qed

subsection \<open>The byte order of the DataView accessors\<close>

text \<open>
  \<open>view_set\<close> stores the most significant byte at the lowest offset, \<open>view_get\<close> reads back
  what \<open>view_set\<close> stored, and an integer of the kind's value domain is read back unchanged.
\<close>

lemma length_be_bytes [simp]: "length (be_bytes w v) = w"
  by (induction w) simp_all

lemma foldl_be: "foldl (\<lambda>acc b. acc * 256 + uint b) acc bs
    = acc * 256 ^ length bs + foldl (\<lambda>acc b. acc * 256 + uint b) 0 (bs :: byte list)"
proof (induction bs arbitrary: acc)
  case Nil
  show ?case by simp
next
  case (Cons b bs)
  show ?case
    using Cons [of "acc * 256 + uint b"] Cons [of "uint b"]
    by (simp add: algebra_simps)
qed

lemma be_value_Cons: "be_value (b # bs) = uint b * 256 ^ length bs + be_value bs"
  using foldl_be [of "uint b" bs] by (simp add: be_value_def)

lemma be_value_be_bytes: "be_value (be_bytes w v) = v mod 256 ^ w"
proof (induction w)
  case 0
  show ?case by (simp add: be_value_def)
next
  case (Suc w)
  have "uint (word_of_int (v div 256 ^ w) :: byte) = v div 256 ^ w mod 256"
    by (simp add: uint_word_of_int)
  then have "be_value (be_bytes (Suc w) v) = (v div 256 ^ w mod 256) * 256 ^ w + v mod 256 ^ w"
    using Suc by (simp add: be_value_Cons)
  also have "\<dots> = v mod (256 ^ w * 256)"
    using zmod_zmult2_eq [of 256 v "256 ^ w"] by (simp add: mult.commute)
  finally show ?case by (simp add: mult.commute)
qed

lemma take_drop_write_at:
  "offset + length bs \<le> length data \<Longrightarrow> take (length bs) (drop offset (write_at data offset bs)) = bs"
  by (simp add: write_at_def drop_append)

lemma view_get_view_set:
  assumes "view_set p data offset v = Inr data'"
  shows "\<exists>u. to_bits p v = Inr u
           \<and> view_get p data' offset = Inr (of_bits p (u mod 256 ^ primitive_size p))"
proof -
  from assms obtain u where u: "to_bits p v = Inr u"
    and len: "offset + primitive_size p \<le> length data"
    and d: "data' = write_at data offset (be_bytes (primitive_size p) u)"
    by (auto simp: view_set_def split: sum.splits if_splits)
  have "length data' = length data" using len unfolding d by (simp add: write_at_def)
  moreover have "take (primitive_size p) (drop offset data') = be_bytes (primitive_size p) u"
    using take_drop_write_at [of offset "be_bytes (primitive_size p) u" data] len unfolding d by simp
  ultimately show ?thesis using u len by (simp add: view_get_def be_value_be_bytes)
qed

lemma trunc_of_int [simp]: "trunc (of_int n) = n"
  by (simp add: trunc_def)

lemma pow_256: "(256 :: int) ^ w = 2 ^ (8 * w)"
  by (simp add: power_mult)

lemma as_signed_mod:
  assumes "0 < w" and "- (2 ^ (8 * w - 1)) \<le> n" and "n < 2 ^ (8 * w - 1)"
  shows "as_signed w (n mod 2 ^ (8 * w)) = n"
proof -
  define h :: int where "h = 2 ^ (8 * w - 1)"
  have "8 * w = Suc (8 * w - 1)" using assms(1) by simp
  then have "(2 :: int) ^ (8 * w) = 2 ^ Suc (8 * w - 1)" by simp
  then have p: "(2 :: int) ^ (8 * w) = 2 * h" by (simp add: h_def)
  have lo: "- h \<le> n" and hi: "n < h" using assms(2,3) by (simp_all add: h_def)
  have s: "as_signed w x = (if h \<le> x then x - 2 * h else x)" for x
    unfolding as_signed_def p by (simp add: h_def)
  show ?thesis
  proof (cases "0 \<le> n")
    case True
    then have "n mod (2 * h) = n" using hi by (simp add: mod_pos_pos_trivial)
    then show ?thesis using hi by (simp add: s p)
  next
    case False
    then have "(n + 2 * h) mod (2 * h) = n + 2 * h"
      using lo by (intro mod_pos_pos_trivial) simp_all
    then have "n mod (2 * h) = n + 2 * h" by simp
    then show ?thesis using False lo by (simp add: s p)
  qed
qed

lemma of_bits_integer:
  assumes "p \<noteq> Float32" and "p \<noteq> Float64" and "in_range p n"
  shows "of_bits p (n mod 256 ^ primitive_size p) = (if isBig p then Big n else Num (Finite (of_int n)))"
proof (cases "isSigned p")
  case True
  then have "as_signed (primitive_size p) (n mod 2 ^ (8 * primitive_size p)) = n"
    using assms(3) by (intro as_signed_mod) (simp_all add: in_range_def)
  then show ?thesis using True assms(1,2) by (simp add: of_bits_def pow_256)
next
  case False
  then have "n mod 2 ^ (8 * primitive_size p) = n"
    using assms(3) by (simp add: in_range_def mod_pos_pos_trivial)
  then show ?thesis using False assms(1,2) by (simp add: of_bits_def pow_256)
qed

lemma scalar_integer_round_trip:
  assumes "p \<noteq> Float32" and "p \<noteq> Float64" and "in_range p n"
    and "view_set p data offset (Some (if isBig p then Big n else Num (Finite (of_int n)))) = Inr data'"
  shows "view_get p data' offset = Inr (if isBig p then Big n else Num (Finite (of_int n)))"
proof -
  have "to_bits p (Some (if isBig p then Big n else Num (Finite (of_int n)))) = Inr n"
    using assms(1,2) by (simp add: to_bits_def)
  with view_get_view_set [OF assms(4)] of_bits_integer [OF assms(1-3)] show ?thesis by auto
qed

lemma be_bytes_nth: "i < w \<Longrightarrow> be_bytes w v ! i = word_of_int (v div 256 ^ (w - 1 - i))"
proof (induction w arbitrary: i)
  case 0
  then show ?case by simp
next
  case (Suc w)
  then show ?case by (cases i) simp_all
qed

lemma view_set_nth:
  assumes "view_set p data offset v = Inr data'" and "i < primitive_size p"
  shows "\<exists>u. to_bits p v = Inr u
           \<and> data' ! (offset + i) = word_of_int (u div 256 ^ (primitive_size p - 1 - i))"
proof -
  from assms(1) obtain u where u: "to_bits p v = Inr u"
    and len: "offset + primitive_size p \<le> length data"
    and d: "data' = write_at data offset (be_bytes (primitive_size p) u)"
    by (auto simp: view_set_def split: sum.splits if_splits)
  have "data' ! (offset + i) = be_bytes (primitive_size p) u ! i"
    unfolding d write_at_def using len assms(2) by (simp add: nth_append)
  with u assms(2) show ?thesis by (simp add: be_bytes_nth)
qed

subsection \<open>The nested branches are not reached\<close>

text \<open>
  A member whose type passes \<^verbatim>\<open>isSerializeableStatic\<close> is a class, which \<^verbatim>\<open>isSerialType\<close>
  rejects before: the results of the loop bodies do not depend on the nested call.
\<close>

lemma static_not_serial_type: "isSerializeableStatic ty \<Longrightarrow> \<not> isSerialType ty"
  by (cases ty) simp_all

lemma serialize_member_nested_unused:
  "serialize_member h v d data offset nested = serialize_member h v d data offset nested'"
proof (cases "sizeof_def d")
  case (Inl e)
  then show ?thesis by (simp add: serialize_member_def)
next
  case (Inr sz)
  then show ?thesis
    by (cases "def_type d") (simp_all add: serialize_member_def Let_def)
qed

lemma Deserialize_member_nested_unused:
  "Deserialize_member s key d buffer offset nested = Deserialize_member s key d buffer offset nested'"
proof (cases "sizeof_def d")
  case (Inl e)
  then show ?thesis by (simp add: Deserialize_member_def)
next
  case (Inr sz)
  then show ?thesis
    by (cases "def_type d") (simp_all add: Deserialize_member_def Let_def)
qed

subsection \<open>The text policy of Deserialize\<close>

text \<open>
  A slot with a non-zero byte decodes to its bytes without the trailing zeros; a non-empty
  slot of zeros decodes to one zero character.
\<close>

lemma lastChar_pos: "0 < lastChar charArray"
  by (simp add: lastChar_def)

lemma foldl_last_nonzero_zero:
  "set bs \<subseteq> {0} \<Longrightarrow> foldl (\<lambda>index (char, i). if char = 0 then index else i) acc (zip bs is) = acc"
  by (induction bs arbitrary: "is" acc) (auto simp: zip_Cons1 split: list.splits)

lemma decode_string_all_zero:
  assumes "set charArray \<subseteq> {0}" and "charArray \<noteq> []"
  shows "decode_string charArray = [CHR 0x00]"
proof -
  have "lastChar charArray = 1"
    using assms(1) by (simp add: lastChar_def foldl_last_nonzero_zero)
  moreover obtain b bs where "charArray = b # bs" using assms(2) by (cases charArray) auto
  moreover have "char_of (0 :: nat) = CHR 0x00" by code_simp
  ultimately show ?thesis using assms(1) by (simp add: decode_string_def slice_list_def fromCharCode_def)
qed

lemma lastChar_snoc:
  "lastChar (bs @ [b]) = (if b = 0 then lastChar bs else Suc (length bs))"
  by (simp add: lastChar_def zip_append1)

lemma lastChar_le: "bs \<noteq> [] \<Longrightarrow> lastChar bs \<le> length bs"
proof (induction bs rule: rev_induct)
  case Nil
  then show ?case by simp
next
  case (snoc b bs)
  then show ?case by (cases "bs = []") (auto simp: lastChar_snoc lastChar_def)
qed

lemma take_lastChar:
  assumes "\<exists>b \<in> set bs. b \<noteq> 0"
  shows "take (lastChar bs) bs = rev (dropWhile (\<lambda>b. b = 0) (rev bs))"
  using assms
proof (induction bs rule: rev_induct)
  case Nil
  then show ?case by simp
next
  case (snoc b bs)
  show ?case
  proof (cases "b = 0")
    case True
    with snoc.prems have ex: "\<exists>b \<in> set bs. b \<noteq> 0" by auto
    then have "bs \<noteq> []" by auto
    then have "lastChar bs \<le> length bs" by (rule lastChar_le)
    with snoc.IH [OF ex] True show ?thesis by (simp add: lastChar_snoc)
  next
    case False
    then show ?thesis by (simp add: lastChar_snoc)
  qed
qed

lemma decode_string_nonzero:
  assumes "\<exists>b \<in> set charArray. b \<noteq> 0"
  shows "decode_string charArray = map fromCharCode (rev (dropWhile (\<lambda>b. b = 0) (rev charArray)))"
  using take_lastChar [OF assms] lastChar_pos [of charArray]
  by (simp add: decode_string_def slice_list_def)

section \<open>Properties\<close>

subsection \<open>Byte order\<close>

text \<open>
  C1. The claim: with the default configuration (littleEndian = true) every multi-byte
  numeric field is written and read least significant byte first, so that the Int16 value
  42 of the concrete scenario occupies its two bytes as 2A 00.

  The code at that input: \<^verbatim>\<open>serialize\<close> produces the bytes the repository's test expects,
  00 2A for the Int16 and 40 48 F5 C3 for the first Float32, most significant byte first;
  and \<^verbatim>\<open>Deserialize\<close> reads the two bytes 2A 00 as 10752, not as 42. The option
  \<^verbatim>\<open>littleEndian\<close> is stored by \<^verbatim>\<open>serialClass\<close> and read by neither function.
\<close>

theorem serialize_test_instance_big_endian:
  "serialize test_heap test_instance =
     Inr [0x00, 0x2A, 0x40, 0x48, 0xF5, 0xC3, 0x40, 0x2D, 0x70, 0xA4, 0x74, 0x65, 0x73, 0x74, 0x00]
   \<and> (case Deserialize [(''prop1'', SerialDef (PrimitiveT Int16) None)] (ArrayBuffer [0x2A, 0x00])
              ([], heap_of []) of
        Inl x \<Rightarrow> False
      | Inr (ps, h) \<Rightarrow> get ps ''prop1'' = Prim (Number (Finite 10752)))"
  by code_simp

subsection \<open>Round trip\<close>

text \<open>
  C2. The claim: decoding the encoding of an instance reproduces every scalar numeric
  field and every array-of-numeric field exactly.

  The code at the class with one member \<open>xs\<close> of two Int16 and the instance
  \<^verbatim>\<open>{ xs: [1, 2] }\<close>: the elements are written as one byte each, 01 02 00 00, and read back
  two bytes each, as \<^verbatim>\<open>[258, 0]\<close>.
\<close>

theorem round_trip_int16_array:
  "serialize (heap_of [[Number (Finite 1), Number (Finite 2)]])
       (Object (array_class Int16 2) [(''xs'', Array 0)])
     = Inr [0x01, 0x02, 0x00, 0x00]
   \<and> (case Deserialize (array_class Int16 2) (ArrayBuffer [0x01, 0x02, 0x00, 0x00])
              ([], heap_of []) of
        Inl x \<Rightarrow> False
      | Inr (ps, h) \<Rightarrow>
          get ps ''xs'' = Array 0 \<and> cells h 0 = [Number (Finite 258), Number (Finite 0)])"
  by code_simp

subsection \<open>Repeated numeric fields\<close>

text \<open>
  C3. The claim: of a repeated numeric field with repeat count \<open>n\<close>, encode keeps the first
  \<open>n\<close> coerced elements and writes element \<open>i\<close> as elementWidth bytes at
  \<open>offset + i * elementWidth\<close>, for every numeric kind, and never raises an error for
  elements beyond \<open>n\<close>.

  The code at two Int16 and the array \<^verbatim>\<open>[1, 2, 3]\<close>: three elements are kept (the slice is
  to the byte size 4, not to the count 2) and each is written as a single byte, 01 02 03 00.
  At one BigInt64 and the array \<^verbatim>\<open>[5n]\<close>, \<^verbatim>\<open>Uint8Array.set\<close> throws a TypeError. The Float32
  and Float64 branch is the one that writes element by element through the DataView.
\<close>

theorem serialize_int16_array_bytes:
  "serialize (heap_of [[Number (Finite 1), Number (Finite 2), Number (Finite 3)]])
       (Object (array_class Int16 2) [(''xs'', Array 0)])
     = Inr [0x01, 0x02, 0x03, 0x00]
   \<and> serialize (heap_of [[BigInt 5]]) (Object (array_class BigInt64 1) [(''xs'', Array 0)])
     = Inl TypeError_Conversion"
  by code_simp

subsection \<open>Text decoding\<close>

text \<open>
  C5. The claim: a text slot with a non-zero byte decodes to the bytes up to and including
  the last non-zero byte, and a slot of zero bytes only decodes to the full repeat-length
  string of zero characters.

  The code at a slot of three zero bytes: \<^verbatim>\<open>lastChar\<close> is \<open>0 + 1\<close>, never zero, so the fallback
  \<^verbatim>\<open>lastChar || charArray.length\<close> is not taken and the result is the string of one zero
  character.
\<close>

theorem Deserialize_all_zero_text:
  "(case Deserialize (string_class 3) (ArrayBuffer [0, 0, 0]) ([], heap_of []) of
      Inl x \<Rightarrow> False
    | Inr (ps, h) \<Rightarrow> get ps ''s'' = Prim (String [CHR 0x00]))"
  by code_simp

subsection \<open>Short arrays\<close>

text \<open>
  C7. The claim: when the source sequence of a repeated field has fewer elements than the
  repeat count, encode writes zero bytes into every remaining slot.

  The code at two Float32 and the array \<^verbatim>\<open>[1.5]\<close>: the loop runs to the repeat count and
  writes \<^verbatim>\<open>arrayData[1]\<close>, which is \<^verbatim>\<open>undefined\<close>, as NaN: the second slot holds 7F C0 00 00, and
  decodes to NaN.
\<close>

theorem serialize_short_float_array:
  "serialize (heap_of [[Number (Finite (3 / 2))]])
       (Object (array_class Float32 2) [(''xs'', Array 0)])
     = Inr [0x3F, 0xC0, 0x00, 0x00, 0x7F, 0xC0, 0x00, 0x00]
   \<and> (case Deserialize (array_class Float32 2)
              (ArrayBuffer [0x3F, 0xC0, 0x00, 0x00, 0x7F, 0xC0, 0x00, 0x00]) ([], heap_of []) of
        Inl x \<Rightarrow> False
      | Inr (ps, h) \<Rightarrow>
          get ps ''xs'' = Array 0 \<and> cells h 0 = [Number (Finite (3 / 2)), Number NaN])"
  by code_simp

subsection \<open>Views of a larger buffer\<close>


subsection \<open>Size\<close>



subsection \<open>Reuse of an existing array\<close>



subsection \<open>Members of length 0\<close>

text \<open>
  C4, as amended. For every schema with a member whose length is 0, \<^verbatim>\<open>serialize\<close> and
  \<^verbatim>\<open>Deserialize\<close> fail. \<^verbatim>\<open>sizeof\<close> does not: on a valid schema it returns the sum, in which
  the member counts 0 bytes. The check sits in the loop over the members: when the members
  before it are processed without error, the error is "0-length arrays are not yet
  supported", raised after the buffer was allocated and those members written, and
  \<^verbatim>\<open>Deserialize\<close> leaves the values of those members in the instance.
\<close>

theorem zero_length_member:
  assumes "(key, d) \<in> set m" and "def_length d = Some 0"
  shows "(isSerialMap m \<longrightarrow> sizeof (ClassT m) = Inr (spec_size m) \<and> fieldSize d = 0)
       \<and> (\<exists>e. serialize h (Object m ps) = Inl e)
       \<and> (\<exists>e s'. Deserialize m data s = Inl (e, s'))
       \<and> (\<forall>pre post data1. m = pre @ (key, d) # post \<and> isSerialMap m
              \<and> serialize_loop h ps pre (replicate (spec_size m) 0) 0 = Inr data1
            \<longrightarrow> serialize h (Object m ps) = Inl Error_ZeroLength)
       \<and> (\<forall>pre post s1. m = pre @ (key, d) # post \<and> isSerialType (def_type d)
              \<and> Deserialize pre data s = Inr s1
            \<longrightarrow> Deserialize m data s = Inl (Error_ZeroLength, s1))"
proof (intro conjI allI impI)
  assume "isSerialMap m"
  then show "sizeof (ClassT m) = Inr (spec_size m)" by (rule sizeof_ClassT)
next
  show "fieldSize d = 0" using assms(2) by (cases d) simp
next
  show "\<exists>e. serialize h (Object m ps) = Inl e"
    using serialize_loop_zero [OF assms] by (auto split: sum.splits)
next
  show "\<exists>e s'. Deserialize m data s = Inl (e, s')"
    unfolding Deserialize_def by (rule Deserialize_loop_zero [OF assms])
next
  fix pre post data1
  assume a: "m = pre @ (key, d) # post \<and> isSerialMap m
    \<and> serialize_loop h ps pre (replicate (spec_size m) 0) 0 = Inr data1"
  then have valid: "isSerialMap m" by (elim conjE)
  then have ty: "isSerialType (def_type d)"
    using assms(1) by (cases d) (auto simp: isSerialMap_iff)
  have "serialize h (Object m ps) = serialize_loop h ps m (replicate (spec_size m) 0) 0"
    by (simp add: sizeof_InstanceT [OF valid])
  also from a serialize_loop_append [of h ps pre "replicate (spec_size m) 0" 0 data1] obtain off1
    where "serialize_loop h ps m (replicate (spec_size m) 0) 0
           = serialize_loop h ps ((key, d) # post) data1 off1" by auto
  also have "\<dots> = Inl Error_ZeroLength"
    using serialize_member_zero(2) [OF assms(2) ty] by simp
  finally show "serialize h (Object m ps) = Inl Error_ZeroLength" .
next
  fix pre post s1
  assume a: "m = pre @ (key, d) # post \<and> isSerialType (def_type d) \<and> Deserialize pre data s = Inr s1"
  from a Deserialize_loop_append [of "buffer_of data" pre s 0 s1] obtain off1
    where "Deserialize_loop (buffer_of data) m s 0
           = Deserialize_loop (buffer_of data) ((key, d) # post) s1 off1"
    by (auto simp: Deserialize_def)
  also have "\<dots> = Inl (Error_ZeroLength, s1)"
    using Deserialize_member_zero(2) [OF assms(2)] a by simp
  finally show "Deserialize m data s = Inl (Error_ZeroLength, s1)"
    by (simp add: Deserialize_def)
qed

text \<open>
  At the class \<open>zero_length_class\<close>, an Int8 \<open>a\<close> followed by \<open>b\<close> of length 0, the instance
  \<^verbatim>\<open>{ a: 7 }\<close> and the buffer 07.
\<close>

theorem zero_length_member_witness:
  "(''b'', SerialDef (PrimitiveT Int8) (Some 0)) \<in> set zero_length_class
   \<and> def_length (SerialDef (PrimitiveT Int8) (Some 0)) = Some 0
   \<and> isSerialMap zero_length_class
   \<and> sizeof (ClassT zero_length_class) = Inr 1
   \<and> serialize (heap_of []) (Object zero_length_class [(''a'', Prim (Number (Finite 7)))]) = Inl Error_ZeroLength
   \<and> Deserialize zero_length_class (ArrayBuffer [7]) ([], heap_of [])
       = Inl (Error_ZeroLength, [(''a'', Prim (Number (Finite 7)))], heap_of [])"
proof -
  let ?d = "SerialDef (PrimitiveT Int8) (Some 0)"
  let ?pre = "[(''a'', SerialDef (PrimitiveT Int8) None)]"
  let ?ps = "[(''a'', Prim (Number (Finite 7)))]"
  have m: "(''b'', ?d) \<in> set zero_length_class" by (simp add: zero_length_class_def)
  have l: "def_length ?d = Some 0" by simp
  have v: "isSerialMap zero_length_class" by (simp add: zero_length_class_def)
  have split: "zero_length_class = ?pre @ (''b'', ?d) # []" by (simp add: zero_length_class_def)
  have ty: "isSerialType (def_type ?d)" by simp
  have sz: "spec_size zero_length_class = 1" by (simp add: zero_length_class_def)
  have ser: "serialize_loop (heap_of []) ?ps ?pre (replicate (spec_size zero_length_class) 0) 0 = Inr [7]"
    unfolding sz by code_simp
  have "view_get Int8 [7] 0 = Inr (Num (Finite 7))" by code_simp
  then have des: "Deserialize ?pre (ArrayBuffer [7]) ([], heap_of []) = Inr (?ps, heap_of [])"
    by (simp add: Deserialize_def Deserialize_member_PrimitiveT_scalar)
  note z = zero_length_member [OF m l, of "heap_of []" ?ps "ArrayBuffer [7]" "([], heap_of [])"]
  from z v sz have 1: "sizeof (ClassT zero_length_class) = Inr 1" by simp
  from z split v ser have 2: "serialize (heap_of []) (Object zero_length_class ?ps) = Inl Error_ZeroLength"
    by blast
  from z split ty des have 3: "Deserialize zero_length_class (ArrayBuffer [7]) ([], heap_of [])
       = Inl (Error_ZeroLength, ?ps, heap_of [])"
    by blast
  from m l v 1 2 3 show ?thesis by blast
qed

text \<open>
  The claim as stated fails at that class: \<^verbatim>\<open>sizeof\<close> returns 1, and \<^verbatim>\<open>Deserialize\<close> has read
  the byte 07 into \<open>a\<close> when it throws.
\<close>

theorem zero_length_sizeof_counterexample:
  "sizeof (ClassT zero_length_class) = Inr 1
   \<and> Deserialize zero_length_class (ArrayBuffer [7]) ([], heap_of [])
       = Inl (Error_ZeroLength, [(''a'', Prim (Number (Finite 7)))], heap_of [])"
proof -
  have "sizeof (ClassT zero_length_class) = Inr 1" by code_simp
  moreover have "view_get Int8 [7] 0 = Inr (Num (Finite 7))" by code_simp
  then have "Deserialize zero_length_class (ArrayBuffer [7]) ([], heap_of [])
       = Inl (Error_ZeroLength, [(''a'', Prim (Number (Finite 7)))], heap_of [])"
    by (simp add: Deserialize_def zero_length_class_def Deserialize_member_PrimitiveT_scalar
        Deserialize_member_PrimitiveT_array)
  ultimately show ?thesis by simp
qed

subsection \<open>Buffers shorter than the size\<close>




end
